theory Spec2Isabelle
  imports Complex_Main
begin

section \<open>System stats display for the GFX HAT: a model of \<^verbatim>\<open>gfx_hat_stats.py\<close>\<close>

text \<open>
  The script keeps four module-level variables (\<^verbatim>\<open>current_page\<close>, \<^verbatim>\<open>cpu_history\<close>,
  \<^verbatim>\<open>net_history\<close>, \<^verbatim>\<open>last_net_io\<close>), reads metrics from the operating system and draws on
  a Pillow image that is then copied to the LCD. The model passes the module state
  explicitly, takes the metric readings of one render pass as an argument, and records
  the drawing calls made on the image, in the order they are made.

  Python integers are \<^typ>\<open>int\<close>. Python floats are modelled by \<^typ>\<open>real\<close>: the arithmetic is
  exact, so the rounding of IEEE doubles is abstracted away.
\<close>

subsection \<open>Constants\<close>

definition WIDTH :: nat where
  "WIDTH = 128"

definition HEIGHT :: nat where
  "HEIGHT = 64"

definition total_pages :: int where
  "total_pages = 3"

subsection \<open>Exceptions\<close>

text \<open>
  \<^verbatim>\<open>ZeroDivisionError\<close> is what Python's \<^verbatim>\<open>/\<close> raises on a zero divisor.
  \<^verbatim>\<open>MetricError\<close> stands for whatever \<^verbatim>\<open>psutil.net_io_counters()\<close> raises (or for the
  attribute error on the \<^verbatim>\<open>None\<close> it returns when there is no interface).
\<close>

datatype py_error = ZeroDivisionError | MetricError

definition py_truediv :: "real \<Rightarrow> real \<Rightarrow> py_error + real" where
  "py_truediv a b = (if b = 0 then Inl ZeroDivisionError else Inr (a / b))"

subsection \<open>The rate estimator: \<^verbatim>\<open>get_network_usage\<close>\<close>

text \<open>
  \<^verbatim>\<open>psutil.net_io_counters()\<close> yields the cumulative counters; the script reads
  \<^verbatim>\<open>bytes_sent\<close> and \<^verbatim>\<open>bytes_recv\<close> only. \<^verbatim>\<open>last_net_io\<close> is \<^verbatim>\<open>None\<close> or a dict with the keys
  \<^verbatim>\<open>bytes_sent\<close>, \<^verbatim>\<open>bytes_recv\<close> and \<^verbatim>\<open>time\<close>.
\<close>

record net_io =
  bytes_sent :: int
  bytes_recv :: int

record snapshot = net_io +
  time :: real

text \<open>
  The body of the \<^verbatim>\<open>try\<close> block. The first argument is the result of
  \<^verbatim>\<open>psutil.net_io_counters()\<close> (\<open>None\<close> when the call fails), the second the value of
  \<^verbatim>\<open>time.time()\<close>, the third \<^verbatim>\<open>last_net_io\<close>. The result is the exception raised, or
  the value returned together with the new \<^verbatim>\<open>last_net_io\<close>.
\<close>

definition get_network_usage_try ::
  "net_io option \<Rightarrow> real \<Rightarrow> snapshot option \<Rightarrow> py_error + (real \<times> snapshot option)" where
  "get_network_usage_try reading current_time last_net_io =
     (case reading of
        None \<Rightarrow> Inl MetricError
      | Some nio \<Rightarrow>
          (let fresh = \<lparr>bytes_sent = bytes_sent nio, bytes_recv = bytes_recv nio,
                         time = current_time\<rparr>
           in case last_net_io of
                None \<Rightarrow> Inr (0, Some fresh)
              | Some l \<Rightarrow>
                  (let sent = bytes_sent nio - bytes_sent l;
                       recv = bytes_recv nio - bytes_recv l;
                       time_delta = current_time - time l
                   in if time_delta > 0 then
                        (case py_truediv (real_of_int (sent + recv)) 1024 of
                           Inl e \<Rightarrow> Inl e
                         | Inr kb \<Rightarrow>
                             (case py_truediv kb time_delta of
                                Inl e \<Rightarrow> Inl e
                              | Inr kb_per_sec \<Rightarrow> Inr (kb_per_sec, Some fresh)))
                      else Inr (0, Some fresh))))"

text \<open>\<^verbatim>\<open>except Exception: return 0\<close>: the stored snapshot is as it was.\<close>

definition get_network_usage ::
  "net_io option \<Rightarrow> real \<Rightarrow> snapshot option \<Rightarrow> real \<times> snapshot option" where
  "get_network_usage reading current_time last_net_io =
     (case get_network_usage_try reading current_time last_net_io of
        Inl e \<Rightarrow> (0, last_net_io)
      | Inr r \<Rightarrow> r)"

subsection \<open>The rolling series: \<^verbatim>\<open>collections.deque\<close> with \<^verbatim>\<open>maxlen\<close>\<close>

text \<open>
  \<^verbatim>\<open>deque.append\<close> adds the value on the right and, when the deque is then longer
  than \<^verbatim>\<open>maxlen\<close>, removes one element on the left. The deque is the list of its
  elements, oldest first.
\<close>

definition deque_append :: "nat \<Rightarrow> 'a list \<Rightarrow> 'a \<Rightarrow> 'a list" where
  "deque_append maxlen d v =
     (let d' = d @ [v] in if length d' > maxlen then tl d' else d')"

text \<open>\<^verbatim>\<open>deque([0] * WIDTH, maxlen=WIDTH)\<close>, the start value of both histories.\<close>

definition history_init :: "real list" where
  "history_init = replicate WIDTH 0"

subsection \<open>Metric readings\<close>

text \<open>
  What the metric functions return during one render pass. \<^verbatim>\<open>get_disk_usage\<close> returns
  \<^verbatim>\<open>(None, None, None)\<close> on failure (here \<open>None\<close>) and \<^verbatim>\<open>get_cpu_temp\<close> returns \<^verbatim>\<open>None\<close>
  when no sensor can be read. \<open>now_time\<close> and \<open>now_date\<close> are the two \<^verbatim>\<open>strftime\<close>
  strings of \<^verbatim>\<open>datetime.now()\<close>; \<open>net_io_counters\<close> and \<open>time_time\<close> are the results of
  \<^verbatim>\<open>psutil.net_io_counters()\<close> and \<^verbatim>\<open>time.time()\<close>.
\<close>

record metrics =
  get_local_ip :: string
  is_copyparty_running :: bool
  now_time :: string
  now_date :: string
  get_disk_usage :: "string \<Rightarrow> (real \<times> real \<times> real) option"
  get_memory_usage :: "real \<times> real \<times> real"
  get_cpu_usage :: real
  get_cpu_temp :: "real option"
  net_io_counters :: "net_io option"
  time_time :: real

subsection \<open>Drawing calls\<close>

text \<open>
  A text is a plain string or an f-string with the numbers it formats (the formatting
  of floats is not modelled). The font argument of \<^verbatim>\<open>draw.text\<close> is left out.
  \<open>Rectangle p q outline fill\<close> is \<^verbatim>\<open>draw.rectangle([p, q], outline, fill)\<close> and
  \<open>Line p q fill\<close> is \<^verbatim>\<open>draw.line([p, q], fill)\<close>.
\<close>

datatype label =
    Plain string
  | SdText real real real
  | NvmePctText real
  | NvmeSizeText real real
  | RamText real real real
  | CpuText real
  | CpuTempText real real
  | NetText real

datatype draw_op =
    Text "int \<times> int" label
  | Rectangle "int \<times> int" "int \<times> int" nat nat
  | Line "int \<times> int" "int \<times> int" nat

subsection \<open>Module state\<close>

text \<open>
  The four module-level variables, and the frames handed to the LCD by \<^verbatim>\<open>lcd.show()\<close>
  (each frame is the list of drawing calls made on the fresh image of that pass).
\<close>

record state =
  current_page :: int
  cpu_history :: "real list"
  net_history :: "real list"
  last_net_io :: "snapshot option"
  lcd :: "draw_op list list"

definition initial_state :: state where
  "initial_state =
     \<lparr>current_page = 0, cpu_history = history_init, net_history = history_init,
      last_net_io = None, lcd = []\<rparr>"

subsection \<open>Pages 0 and 1\<close>

text \<open>\<^verbatim>\<open>COPYPARTY_PORT\<close> is 8080, so \<^verbatim>\<open>f"Port {COPYPARTY_PORT}"\<close> is the string \<^verbatim>\<open>Port 8080\<close>.\<close>

definition draw_page_0 :: "draw_op list \<Rightarrow> metrics \<Rightarrow> draw_op list" where
  "draw_page_0 draw m =
     (let ip = get_local_ip m;
          copyparty_status = is_copyparty_running m;
          status = (if copyparty_status then ''Port 8080'' else ''Stopped'')
      in draw @
         [Text (2, 2) (Plain (''IP: '' @ ip)),
          Text (2, 18) (Plain (''Copyparty: '' @ status)),
          Text (2, 34) (Plain (now_time m)),
          Text (2, 50) (Plain (now_date m))])"

definition draw_page_1 :: "draw_op list \<Rightarrow> metrics \<Rightarrow> draw_op list" where
  "draw_page_1 draw m =
     (let draw1 =
            (case get_disk_usage m ''/'' of
               Some (sd_pct, sd_used, sd_total) \<Rightarrow>
                 draw @ [Text (2, 2) (SdText sd_pct sd_used sd_total)]
             | None \<Rightarrow> draw);
          draw2 =
            (case get_disk_usage m ''/mnt/storage'' of
               Some (nvme_pct, nvme_used, nvme_total) \<Rightarrow>
                 draw1 @ [Text (2, 18) (NvmePctText nvme_pct),
                          Text (2, 34) (NvmeSizeText nvme_used nvme_total)]
             | None \<Rightarrow> draw1 @ [Text (2, 18) (Plain ''NVMe: N/A'')])
      in case get_memory_usage m of
           (mem_pct, mem_used, mem_total) \<Rightarrow>
             draw2 @ [Text (2, 50) (RamText mem_pct mem_used mem_total)])"

subsection \<open>The graph renderer: \<^verbatim>\<open>draw_graph\<close>\<close>

text \<open>Python's \<^verbatim>\<open>int()\<close> of a float truncates toward zero.\<close>

definition py_int :: "real \<Rightarrow> int" where
  "py_int r = (if r \<ge> 0 then \<lfloor>r\<rfloor> else \<lceil>r\<rceil>)"

text \<open>
  The loop \<^verbatim>\<open>for x, value in enumerate(data)\<close>, over the pairs still to visit.
  \<^verbatim>\<open>value / max_value\<close> raises on a zero \<^verbatim>\<open>max_value\<close>, which ends the loop.
\<close>

fun draw_bars ::
  "draw_op list \<Rightarrow> (nat \<times> real) list \<Rightarrow> int \<Rightarrow> int \<Rightarrow> int \<Rightarrow> py_error + draw_op list" where
  "draw_bars draw [] y_start height max_value = Inr draw"
| "draw_bars draw ((x, v) # rest) y_start height max_value =
     (if v > 0 then
        (case py_truediv v (real_of_int max_value) of
           Inl e \<Rightarrow> Inl e
         | Inr q \<Rightarrow>
             (let bar_height = py_int (q * real_of_int (height - 2));
                  bar_height = min bar_height (height - 2)
              in if bar_height > 0 then
                   (let y_bottom = y_start + height - 2;
                        y_top = y_bottom - bar_height
                    in draw_bars (draw @ [Line (int x + 1, y_top) (int x + 1, y_bottom) 1])
                         rest y_start height max_value)
                 else draw_bars draw rest y_start height max_value))
      else draw_bars draw rest y_start height max_value)"

definition draw_graph ::
  "draw_op list \<Rightarrow> real list \<Rightarrow> int \<Rightarrow> int \<Rightarrow> int \<Rightarrow> py_error + draw_op list" where
  "draw_graph draw data y_start height max_value =
     (if length data = 0 then Inr draw
      else draw_bars
             (draw @ [Rectangle (0, y_start) (int WIDTH - 1, y_start + height - 1) 1 0])
             (enumerate 0 data) y_start height max_value)"

subsection \<open>Page 2\<close>

text \<open>
  \<^verbatim>\<open>if cpu_temp:\<close> tests the truth value of the reading: \<^verbatim>\<open>None\<close> is false, and so is
  the float \<^verbatim>\<open>0.0\<close>. Both calls of \<^verbatim>\<open>draw_graph\<close> use the default \<^verbatim>\<open>max_value=100\<close>.
  An exception leaves the function without a result.
\<close>

definition draw_page_2 ::
  "draw_op list \<Rightarrow> metrics \<Rightarrow> state \<Rightarrow> py_error + (draw_op list \<times> state)" where
  "draw_page_2 draw m st =
     (let cpu_usage = get_cpu_usage m;
          cpu_temp = get_cpu_temp m;
          st1 = st\<lparr>cpu_history := deque_append WIDTH (cpu_history st) cpu_usage\<rparr>
      in case get_network_usage (net_io_counters m) (time_time m) (last_net_io st1) of
           (net_usage, last') \<Rightarrow>
             (let st2 = st1\<lparr>last_net_io := last'\<rparr>;
                  net_scaled = min ((net_usage / 1000) * 100) 100;
                  st3 = st2\<lparr>net_history := deque_append WIDTH (net_history st2) net_scaled\<rparr>;
                  draw1 =
                    (case cpu_temp of
                       None \<Rightarrow> draw @ [Text (2, 0) (CpuText cpu_usage)]
                     | Some t \<Rightarrow>
                         if t \<noteq> 0 then draw @ [Text (2, 0) (CpuTempText cpu_usage t)]
                         else draw @ [Text (2, 0) (CpuText cpu_usage)])
              in case draw_graph draw1 (cpu_history st3) 12 20 100 of
                   Inl e \<Rightarrow> Inl e
                 | Inr draw2 \<Rightarrow>
                     (let draw3 = draw2 @ [Text (2, 34) (NetText net_usage)]
                      in case draw_graph draw3 (net_history st3) 46 18 100 of
                           Inl e \<Rightarrow> Inl e
                         | Inr draw4 \<Rightarrow> Inr (draw4, st3))))"

subsection \<open>The render pass and the button handlers\<close>

text \<open>
  \<^verbatim>\<open>update_display\<close> draws the current page on a fresh image and shows it. A page number
  other than 0, 1 or 2 shows the empty image.
\<close>

definition update_display :: "metrics \<Rightarrow> state \<Rightarrow> py_error + state" where
  "update_display m st =
     (case (if current_page st = 0 then Inr (draw_page_0 [] m, st)
            else if current_page st = 1 then Inr (draw_page_1 [] m, st)
            else if current_page st = 2 then draw_page_2 [] m st
            else Inr ([], st)) of
        Inl e \<Rightarrow> Inl e
      | Inr (img, st') \<Rightarrow> Inr (st'\<lparr>lcd := lcd st' @ [img]\<rparr>))"

definition next_page :: "nat \<Rightarrow> string \<Rightarrow> metrics \<Rightarrow> state \<Rightarrow> py_error + state" where
  "next_page ch event m st =
     (if event = ''press'' then
        update_display m (st\<lparr>current_page := (current_page st + 1) mod total_pages\<rparr>)
      else Inr st)"

definition prev_page :: "nat \<Rightarrow> string \<Rightarrow> metrics \<Rightarrow> state \<Rightarrow> py_error + state" where
  "prev_page ch event m st =
     (if event = ''press'' then
        update_display m (st\<lparr>current_page := (current_page st - 1) mod total_pages\<rparr>)
      else Inr st)"

text \<open>
  \<^verbatim>\<open>main\<close> registers \<^verbatim>\<open>prev_page\<close> on touch channel 3 and \<^verbatim>\<open>next_page\<close> on channel 5 and
  calls \<^verbatim>\<open>update_display\<close> every two seconds. A trigger is a touch event (channel and
  event name) or a tick of the loop; each comes with the metric readings of its pass.
\<close>

datatype trigger = Touch nat string | Tick

definition step :: "metrics \<times> trigger \<Rightarrow> state \<Rightarrow> py_error + state" where
  "step mt st =
     (case mt of
        (m, Touch ch event) \<Rightarrow>
          if ch = 3 then prev_page ch event m st
          else if ch = 5 then next_page ch event m st
          else Inr st
      | (m, Tick) \<Rightarrow> update_display m st)"

fun run :: "(metrics \<times> trigger) list \<Rightarrow> state \<Rightarrow> py_error + state" where
  "run [] st = Inr st"
| "run (mt # rest) st = (case step mt st of Inl e \<Rightarrow> Inl e | Inr st' \<Rightarrow> run rest st')"

subsection \<open>Formulas of the specification, and auxiliary notions for the statements\<close>

text \<open>
  The specification's bar height, in its words:
  \<^verbatim>\<open>bar = clamp(round(v / max_value * (height - 2)), 0, height - 2)\<close>.
\<close>

definition clamp :: "int \<Rightarrow> int \<Rightarrow> int \<Rightarrow> int" where
  "clamp x lo hi = max lo (min x hi)"

definition spec_bar :: "real \<Rightarrow> int \<Rightarrow> int \<Rightarrow> int" where
  "spec_bar v max_value height =
     clamp (round (v / real_of_int max_value * real_of_int (height - 2))) 0 (height - 2)"

text \<open>The same formula with truncation toward zero in the place of rounding.\<close>

definition trunc_bar :: "real \<Rightarrow> int \<Rightarrow> int \<Rightarrow> int" where
  "trunc_bar v max_value height =
     clamp (py_int (v / real_of_int max_value * real_of_int (height - 2))) 0 (height - 2)"

text \<open>
  The image. \<^verbatim>\<open>update_display\<close> draws on \<^verbatim>\<open>Image.new('P', (WIDTH, HEIGHT))\<close>: pixel
  \<open>(x, y)\<close> is on the image when \<open>0 \<le> x < WIDTH\<close> and \<open>0 \<le> y < HEIGHT\<close>. Pillow's
  \<^verbatim>\<open>draw.line\<close>, at its default width, sets both end points and every pixel between them
  to the fill value, and draws nothing off the image. \<^verbatim>\<open>draw_graph\<close> draws vertical
  lines only; \<open>line_lights op p\<close> says that the call \<open>op\<close> is a vertical line with a
  non-zero fill that sets pixel \<open>p\<close>. \<open>bar_rows ops c\<close> lists, in increasing order, the
  rows of column \<open>c\<close> of the image that the lines among \<open>ops\<close> light.
\<close>

definition in_image :: "int \<times> int \<Rightarrow> bool" where
  "in_image p = (0 \<le> fst p \<and> fst p < int WIDTH \<and> 0 \<le> snd p \<and> snd p < int HEIGHT)"

fun line_lights :: "draw_op \<Rightarrow> int \<times> int \<Rightarrow> bool" where
  "line_lights (Line (x0, y0) (x1, y1) fill) p =
     (0 < fill \<and> x0 = x1 \<and> fst p = x0 \<and> min y0 y1 \<le> snd p \<and> snd p \<le> max y0 y1 \<and> in_image p)"
| "line_lights (Text q l) p = False"
| "line_lights (Rectangle q r outline fill) p = False"

definition lit_by_lines :: "draw_op list \<Rightarrow> int \<times> int \<Rightarrow> bool" where
  "lit_by_lines ops p = list_ex (\<lambda>op. line_lights op p) ops"

definition bar_rows :: "draw_op list \<Rightarrow> int \<Rightarrow> int list" where
  "bar_rows ops c = filter (\<lambda>y. lit_by_lines ops (c, y)) [0 .. int HEIGHT - 1]"

text \<open>
  A sample of readings for the examples: no network, no sensor, nothing mounted, and
  cumulative counters \<open>(100, 200)\<close> at time \<open>1000\<close>.
\<close>

definition sample_metrics :: metrics where
  "sample_metrics =
     \<lparr>get_local_ip = ''No network'', is_copyparty_running = False,
      now_time = ''12:00:00'', now_date = ''2024-01-01'',
      get_disk_usage = Map.empty, get_memory_usage = (50, 2, 4),
      get_cpu_usage = 25, get_cpu_temp = None,
      net_io_counters = Some \<lparr>bytes_sent = 100, bytes_recv = 200\<rparr>, time_time = 1000\<rparr>"

section \<open>The rate estimator\<close>

text \<open>
  With a reading at hand the \<^verbatim>\<open>try\<close> block never raises: the only divisions are by
  1024 and by a \<^verbatim>\<open>time_delta\<close> that was tested positive. It always stores the current
  reading, and returns a rate only when a snapshot exists and time has advanced.
\<close>

lemma get_network_usage_try_reading:
  "get_network_usage_try (Some nio) t prev =
     Inr (case prev of
            None \<Rightarrow> 0
          | Some l \<Rightarrow>
              if time l < t
              then real_of_int ((bytes_sent nio - bytes_sent l) + (bytes_recv nio - bytes_recv l))
                     / 1024 / (t - time l)
              else 0,
          Some \<lparr>bytes_sent = bytes_sent nio, bytes_recv = bytes_recv nio, time = t\<rparr>)"
  by (simp add: get_network_usage_try_def py_truediv_def Let_def split: option.split)

lemma get_network_usage_reading:
  "get_network_usage (Some nio) t prev =
     (case prev of
        None \<Rightarrow> 0
      | Some l \<Rightarrow>
          if time l < t
          then real_of_int ((bytes_sent nio - bytes_sent l) + (bytes_recv nio - bytes_recv l))
                 / 1024 / (t - time l)
          else 0,
      Some \<lparr>bytes_sent = bytes_sent nio, bytes_recv = bytes_recv nio, time = t\<rparr>)"
  by (simp add: get_network_usage_def get_network_usage_try_reading)

lemma get_network_usage_failed:
  "get_network_usage None t prev = (0, prev)"
  by (simp add: get_network_usage_def get_network_usage_try_def)

text \<open>
  Claim C1, as amended. When both cumulative counters of a reading are strictly smaller
  than in the stored snapshot, the call replaces the snapshot by the new reading, and
  the following call (at a later time) computes its rate from that new baseline only.
  The rate returned by the call that sees the decrease is the (negative) difference
  divided by 1024 and by the elapsed time: it is negative when time has advanced, and
  0 when it has not.
\<close>

theorem counter_decrease_rebaselines:
  assumes "bytes_sent nio < bytes_sent l" and "bytes_recv nio < bytes_recv l"
  shows "snd (get_network_usage (Some nio) t (Some l)) =
           Some \<lparr>bytes_sent = bytes_sent nio, bytes_recv = bytes_recv nio, time = t\<rparr>
       \<and> (time l < t \<longrightarrow>
            fst (get_network_usage (Some nio) t (Some l)) =
              real_of_int ((bytes_sent nio - bytes_sent l) + (bytes_recv nio - bytes_recv l))
                / 1024 / (t - time l)
          \<and> fst (get_network_usage (Some nio) t (Some l)) < 0)
       \<and> (t \<le> time l \<longrightarrow> fst (get_network_usage (Some nio) t (Some l)) = 0)
       \<and> (t < t' \<longrightarrow>
            fst (get_network_usage (Some nio') t' (snd (get_network_usage (Some nio) t (Some l)))) =
              real_of_int ((bytes_sent nio' - bytes_sent nio) + (bytes_recv nio' - bytes_recv nio))
                / 1024 / (t' - t))"
proof -
  have neg: "real_of_int ((bytes_sent nio - bytes_sent l) + (bytes_recv nio - bytes_recv l)) < 0"
    using assms by simp
  have "time l < t \<Longrightarrow>
     real_of_int ((bytes_sent nio - bytes_sent l) + (bytes_recv nio - bytes_recv l))
       / 1024 / (t - time l) < 0"
    using neg by (simp add: divide_neg_pos)
  then show ?thesis
    by (simp add: get_network_usage_reading)
qed

text \<open>
  The theorem at snapshot \<open>(150, 250)\<close> taken at time 0, reading \<open>(100, 200)\<close> at time 2
  and reading \<open>(300, 400)\<close> at time 4.
\<close>

theorem counter_decrease_rebaselines_witness:
  "bytes_sent \<lparr>bytes_sent = 100, bytes_recv = 200\<rparr>
     < bytes_sent \<lparr>bytes_sent = 150, bytes_recv = 250, time = 0\<rparr>
   \<and> bytes_recv \<lparr>bytes_sent = 100, bytes_recv = 200\<rparr>
     < bytes_recv \<lparr>bytes_sent = 150, bytes_recv = 250, time = 0\<rparr>
   \<and> time \<lparr>bytes_sent = 150, bytes_recv = 250, time = 0\<rparr> < 2 \<and> (2::real) < 4
   \<and> fst (get_network_usage (Some \<lparr>bytes_sent = 100, bytes_recv = 200\<rparr>) 2
         (Some \<lparr>bytes_sent = 150, bytes_recv = 250, time = 0\<rparr>)) = - (25 / 512)
   \<and> snd (get_network_usage (Some \<lparr>bytes_sent = 100, bytes_recv = 200\<rparr>) 2
           (Some \<lparr>bytes_sent = 150, bytes_recv = 250, time = 0\<rparr>))
       = Some \<lparr>bytes_sent = 100, bytes_recv = 200, time = 2\<rparr>
   \<and> fst (get_network_usage (Some \<lparr>bytes_sent = 300, bytes_recv = 400\<rparr>) 4
           (snd (get_network_usage (Some \<lparr>bytes_sent = 100, bytes_recv = 200\<rparr>) 2
                  (Some \<lparr>bytes_sent = 150, bytes_recv = 250, time = 0\<rparr>)))) = 25 / 128"
  using counter_decrease_rebaselines
    [of "\<lparr>bytes_sent = 100, bytes_recv = 200\<rparr>"
        "\<lparr>bytes_sent = 150, bytes_recv = 250, time = 0\<rparr>" 2 4
        "\<lparr>bytes_sent = 300, bytes_recv = 400\<rparr>"]
  by auto

text \<open>
  The claim as stated (the returned rate is never negative) fails: from the snapshot
  \<open>(150, 250)\<close> at time 0, the reading \<open>(100, 200)\<close> at time 2 returns a negative rate.
\<close>

theorem counter_decrease_counterexample:
  "fst (get_network_usage (Some \<lparr>bytes_sent = 100, bytes_recv = 200\<rparr>) 2
         (Some \<lparr>bytes_sent = 150, bytes_recv = 250, time = 0\<rparr>)) < 0"
  by (simp add: get_network_usage_reading)

text \<open>
  Claim C2, as amended. When a snapshot exists and the elapsed time is at most 0, the
  \<^verbatim>\<open>try\<close> block ends without an exception (no division takes place), the call returns 0,
  and the stored snapshot is replaced by the current reading.
\<close>

theorem clock_anomaly_rebaselines:
  assumes "t - time l \<le> 0"
  shows "get_network_usage_try (Some nio) t (Some l) =
           Inr (0, Some \<lparr>bytes_sent = bytes_sent nio, bytes_recv = bytes_recv nio, time = t\<rparr>)
       \<and> get_network_usage (Some nio) t (Some l) =
           (0, Some \<lparr>bytes_sent = bytes_sent nio, bytes_recv = bytes_recv nio, time = t\<rparr>)"
  using assms by (simp add: get_network_usage_reading get_network_usage_try_reading)

text \<open>The theorem at a clock that went back from 10 to 5.\<close>

theorem clock_anomaly_rebaselines_witness:
  "(5::real) - 10 \<le> 0
   \<and> get_network_usage_try (Some \<lparr>bytes_sent = 150, bytes_recv = 250\<rparr>) 5
       (Some \<lparr>bytes_sent = 100, bytes_recv = 200, time = 10\<rparr>) =
         Inr (0, Some \<lparr>bytes_sent = 150, bytes_recv = 250, time = 5\<rparr>)
   \<and> get_network_usage (Some \<lparr>bytes_sent = 150, bytes_recv = 250\<rparr>) 5
       (Some \<lparr>bytes_sent = 100, bytes_recv = 200, time = 10\<rparr>) =
         (0, Some \<lparr>bytes_sent = 150, bytes_recv = 250, time = 5\<rparr>)"
  using clock_anomaly_rebaselines
    [of 5 "\<lparr>bytes_sent = 100, bytes_recv = 200, time = 10\<rparr>"
        "\<lparr>bytes_sent = 150, bytes_recv = 250\<rparr>"]
  by simp

text \<open>
  The claim as stated (the stored snapshot is left unchanged) fails: with no time
  elapsed, the snapshot \<open>(100, 200)\<close> is replaced by the reading \<open>(150, 250)\<close>.
\<close>

theorem clock_anomaly_counterexample:
  "snd (get_network_usage (Some \<lparr>bytes_sent = 150, bytes_recv = 250\<rparr>) 10
         (Some \<lparr>bytes_sent = 100, bytes_recv = 200, time = 10\<rparr>))
     \<noteq> Some \<lparr>bytes_sent = 100, bytes_recv = 200, time = 10\<rparr>"
  by (simp add: get_network_usage_reading)

text \<open>
  Claim C3, as amended. The first call stores the reading and returns 0. A call with a
  snapshot and positive elapsed time returns the difference of the totals divided by
  1024 and by the elapsed seconds (kilobytes per second), and replaces the snapshot.
  With counters \<open>(100, 200)\<close> at time \<open>T\<close> and \<open>(150, 250)\<close> at time \<open>T + 2\<close> the second
  call returns \<open>(50 + 50) / 1024 / 2\<close>.
\<close>

theorem first_call_then_rate:
  "get_network_usage (Some nio) t None =
     (0, Some \<lparr>bytes_sent = bytes_sent nio, bytes_recv = bytes_recv nio, time = t\<rparr>)
   \<and> (0 < t - time l \<longrightarrow>
        get_network_usage (Some nio) t (Some l) =
          (real_of_int ((bytes_sent nio + bytes_recv nio) - (bytes_sent l + bytes_recv l))
             / 1024 / (t - time l),
           Some \<lparr>bytes_sent = bytes_sent nio, bytes_recv = bytes_recv nio, time = t\<rparr>))
   \<and> get_network_usage (Some \<lparr>bytes_sent = 100, bytes_recv = 200\<rparr>) T None =
        (0, Some \<lparr>bytes_sent = 100, bytes_recv = 200, time = T\<rparr>)
   \<and> get_network_usage (Some \<lparr>bytes_sent = 150, bytes_recv = 250\<rparr>) (T + 2)
        (Some \<lparr>bytes_sent = 100, bytes_recv = 200, time = T\<rparr>) =
        ((50 + 50) / 1024 / 2, Some \<lparr>bytes_sent = 150, bytes_recv = 250, time = T + 2\<rparr>)"
  by (simp add: get_network_usage_reading algebra_simps)

text \<open>The theorem at snapshot \<open>(100, 200)\<close> of time 1000 and reading \<open>(150, 250)\<close> at 1002.\<close>

theorem first_call_then_rate_witness:
  "(0::real) < 1002 - 1000
   \<and> get_network_usage (Some \<lparr>bytes_sent = 150, bytes_recv = 250\<rparr>) 1002 None =
       (0, Some \<lparr>bytes_sent = 150, bytes_recv = 250, time = 1002\<rparr>)
   \<and> get_network_usage (Some \<lparr>bytes_sent = 150, bytes_recv = 250\<rparr>) 1002
        (Some \<lparr>bytes_sent = 100, bytes_recv = 200, time = 1000\<rparr>) =
        (25 / 512, Some \<lparr>bytes_sent = 150, bytes_recv = 250, time = 1002\<rparr>)"
  using first_call_then_rate
    [of "\<lparr>bytes_sent = 150, bytes_recv = 250\<rparr>" 1002
        "\<lparr>bytes_sent = 100, bytes_recv = 200, time = 1000\<rparr>" 0]
  by simp

text \<open>
  The claim as stated (the second call returns 50) fails: with the first call at time
  1000 and the second at time 1002 the rate returned is \<open>25 / 512\<close>.
\<close>

theorem first_call_then_rate_counterexample:
  "get_network_usage (Some \<lparr>bytes_sent = 100, bytes_recv = 200\<rparr>) 1000 None =
     (0, Some \<lparr>bytes_sent = 100, bytes_recv = 200, time = 1000\<rparr>)
   \<and> fst (get_network_usage (Some \<lparr>bytes_sent = 150, bytes_recv = 250\<rparr>) (1000 + 2)
           (Some \<lparr>bytes_sent = 100, bytes_recv = 200, time = 1000\<rparr>)) = 25 / 512
   \<and> fst (get_network_usage (Some \<lparr>bytes_sent = 150, bytes_recv = 250\<rparr>) (1000 + 2)
           (Some \<lparr>bytes_sent = 100, bytes_recv = 200, time = 1000\<rparr>)) \<noteq> 50"
  by (simp add: get_network_usage_reading)

section \<open>The rolling series\<close>

text \<open>
  A deque that holds \<^verbatim>\<open>maxlen\<close> elements keeps that length on every append, and after
  any pushes it holds the last \<^verbatim>\<open>maxlen\<close> elements of its start contents followed by the
  pushed values.
\<close>

lemma length_deque_append:
  "length d = n \<Longrightarrow> length (deque_append n d v) = n"
  by (simp add: deque_append_def)

lemma deque_append_full:
  "length d = n \<Longrightarrow> deque_append n d v = tl (d @ [v])"
  by (simp add: deque_append_def)

lemma foldl_deque_append:
  "length d = n \<Longrightarrow> foldl (deque_append n) d vs = drop (length vs) (d @ vs)"
proof (induction vs arbitrary: d)
  case Nil
  then show ?case by simp
next
  case (Cons v vs)
  have len: "length (deque_append n d v) = n"
    using Cons.prems by (rule length_deque_append)
  have shift: "deque_append n d v @ vs = drop 1 (d @ v # vs)"
    using Cons.prems by (cases d) (simp_all add: deque_append_full)
  have "foldl (deque_append n) d (v # vs) = foldl (deque_append n) (deque_append n d v) vs"
    by simp
  also have "\<dots> = drop (length vs) (deque_append n d v @ vs)"
    using len by (rule Cons.IH)
  also have "\<dots> = drop (length vs) (drop 1 (d @ v # vs))"
    by (simp only: shift)
  also have "\<dots> = drop (length vs + 1) (d @ v # vs)"
    by (rule drop_drop)
  also have "length vs + 1 = length (v # vs)"
    by simp
  finally show ?case .
qed

lemma last_deque_append:
  "0 < n \<Longrightarrow> last (deque_append n d v) = v"
  by (cases d) (simp_all add: deque_append_def Let_def)

section \<open>The graph renderer\<close>

text \<open>
  With a positive \<^verbatim>\<open>max_value\<close> the loop never raises. The bar height it computes is
  positive exactly when the clamped, truncated height \<open>trunc_bar\<close> is, and then the two
  agree; a value that is not positive draws nothing.
\<close>

lemma trunc_bar_positive:
  "(0 < trunc_bar v m h) = (0 < min (py_int (v / real_of_int m * real_of_int (h - 2))) (h - 2))"
  "0 < min (py_int (v / real_of_int m * real_of_int (h - 2))) (h - 2) \<Longrightarrow>
     trunc_bar v m h = min (py_int (v / real_of_int m * real_of_int (h - 2))) (h - 2)"
  by (auto simp add: trunc_bar_def clamp_def)

lemma py_int_nonpos:
  "r \<le> 0 \<Longrightarrow> py_int r \<le> 0"
  by (simp add: py_int_def)

lemma trunc_bar_nonpositive_value:
  assumes "v \<le> 0" and "0 < m"
  shows "\<not> 0 < trunc_bar v m h"
proof (cases "0 \<le> h - 2")
  case True
  have "v / real_of_int m \<le> 0"
    using assms by (simp add: divide_nonpos_pos)
  moreover have "0 \<le> real_of_int (h - 2)"
    using True by simp
  ultimately have "v / real_of_int m * real_of_int (h - 2) \<le> 0"
    by (rule mult_nonpos_nonneg)
  then have "py_int (v / real_of_int m * real_of_int (h - 2)) \<le> 0"
    by (rule py_int_nonpos)
  then show ?thesis
    unfolding trunc_bar_def clamp_def by simp
next
  case False
  then show ?thesis
    unfolding trunc_bar_def clamp_def by simp
qed

lemma draw_bars_trunc:
  assumes "0 < m"
  shows "draw_bars draw xs y h m =
     Inr (draw @ concat (map (\<lambda>(x, v).
            if 0 < trunc_bar v m h
            then [Line (int x + 1, y + h - 2 - trunc_bar v m h) (int x + 1, y + h - 2) 1]
            else []) xs))"
proof (induction xs arbitrary: draw)
  case Nil
  show ?case by simp
next
  case (Cons p xs)
  obtain x v where p: "p = (x, v)" by (cases p)
  show ?case
  proof (cases "0 < v")
    case True
    show ?thesis
      using assms True
      by (simp add: p Cons.IH py_truediv_def Let_def trunc_bar_positive)
  next
    case False
    then have "\<not> 0 < trunc_bar v m h"
      using assms by (simp add: trunc_bar_nonpositive_value)
    then show ?thesis
      using False by (simp add: p Cons.IH)
  qed
qed

lemma draw_graph_trunc:
  assumes "0 < m" and "data \<noteq> []"
  shows "draw_graph draw data y h m =
     Inr (draw @ Rectangle (0, y) (int WIDTH - 1, y + h - 1) 1 0 #
          concat (map (\<lambda>(x, v).
            if 0 < trunc_bar v m h
            then [Line (int x + 1, y + h - 2 - trunc_bar v m h) (int x + 1, y + h - 2) 1]
            else []) (enumerate 0 data)))"
  using assms by (simp add: draw_graph_def draw_bars_trunc)

lemma draw_graph_total:
  assumes "0 < m"
  shows "\<exists>new. draw_graph draw data y h m = Inr (draw @ new)"
proof (cases "data = []")
  case True
  then show ?thesis by (simp add: draw_graph_def)
next
  case False
  then show ?thesis using assms by (simp add: draw_graph_trunc)
qed

lemma draw_bars_nonpositive:
  "\<forall>p \<in> set xs. snd p \<le> 0 \<Longrightarrow> draw_bars draw xs y h m = Inr draw"
  by (induction xs arbitrary: draw) auto

lemma enumerate_replicate_nonpositive:
  "\<forall>p \<in> set (enumerate n (replicate k (0::real))). snd p \<le> 0"
  by (auto simp add: in_set_enumerate_eq)

lemma draw_bars_zeros_then:
  "draw_bars draw (enumerate n (replicate k 0 @ vs)) y h m =
     draw_bars draw (enumerate (n + k) vs) y h m"
  by (induction k arbitrary: n) simp_all

lemma trunc_bar_le:
  "0 < trunc_bar v m h \<Longrightarrow> trunc_bar v m h \<le> h - 2"
  by (auto simp add: trunc_bar_def clamp_def)

lemma trunc_bar_examples:
  "trunc_bar 5 100 20 = 0" "trunc_bar 50 100 20 = 9" "trunc_bar 100 100 20 = 18"
  by (simp_all add: trunc_bar_def clamp_def py_int_def)

text \<open>
  Rows of the image lit by the lines of a graph. A filter of an interval by an interval
  is an interval; a single vertical line lights the rows between its end points that
  are on the image; the lines that \<^verbatim>\<open>draw_graph\<close> draws light, in column \<open>i + 1\<close>, the
  rows of the line for the value at index \<open>i\<close>, and nothing when that value has no bar.
\<close>

lemma filter_upto_range:
  "filter (\<lambda>y. a \<le> y \<and> y \<le> b) [l..u] = [max a l .. min b u]"
proof (rule sorted_distinct_set_unique)
  show "sorted (filter (\<lambda>y. a \<le> y \<and> y \<le> b) [l..u])"
    by (simp add: sorted_wrt_filter)
  show "distinct (filter (\<lambda>y. a \<le> y \<and> y \<le> b) [l..u])"
    by simp
  show "sorted [max a l .. min b u]" by simp
  show "distinct [max a l .. min b u]" by simp
  show "set (filter (\<lambda>y. a \<le> y \<and> y \<le> b) [l..u]) = set [max a l .. min b u]"
    by auto
qed

lemma filter_upto_drop_first:
  "filter (\<lambda>y. y \<noteq> a) [a .. b] = [a + 1 .. b]"
proof (cases "a \<le> b")
  case True
  have "filter (\<lambda>y. y \<noteq> a) [a + 1 .. b] = [a + 1 .. b]"
    by (rule filter_True) auto
  then show ?thesis
    using True by (simp add: upto_rec1)
next
  case False
  then show ?thesis by simp
qed



lemma bar_rows_single:
  assumes "0 < fill"
  shows "bar_rows [Line (c, a) (c, b) fill] c =
     (if 0 \<le> c \<and> c < int WIDTH then [max (min a b) 0 .. min (max a b) (int HEIGHT - 1)] else [])"
proof (cases "0 \<le> c \<and> c < int WIDTH")
  case True
  have "bar_rows [Line (c, a) (c, b) fill] c =
          filter (\<lambda>y. min a b \<le> y \<and> y \<le> max a b) [0 .. int HEIGHT - 1]"
    unfolding bar_rows_def lit_by_lines_def
    using True assms by (intro filter_cong) (auto simp add: in_image_def)
  then show ?thesis
    using True by (simp add: filter_upto_range)
next
  case False
  then show ?thesis
    by (auto simp add: bar_rows_def lit_by_lines_def in_image_def)
qed

lemma lit_by_lines_graph:
  "lit_by_lines
     (concat (map (\<lambda>(x, v). if 0 < B v then [Line (int x + 1, g - B v) (int x + 1, g) 1] else [])
                  (enumerate 0 data))) (int i + 1, y) =
   (i < length data \<and> 0 < B (data ! i) \<and> g - B (data ! i) \<le> y \<and> y \<le> g
      \<and> in_image (int i + 1, y))"
  (is "?lhs = ?rhs")
proof
  assume ?lhs
  then show ?rhs
    by (auto simp add: lit_by_lines_def list_ex_iff in_set_enumerate_eq split: if_splits)
next
  assume r: ?rhs
  then have "(i, data ! i) \<in> set (enumerate 0 data)"
    by (simp add: in_set_enumerate_eq)
  moreover have "line_lights (Line (int i + 1, g - B (data ! i)) (int i + 1, g) 1) (int i + 1, y)"
    using r by simp
  ultimately show ?lhs
    using r by (force simp add: lit_by_lines_def list_ex_iff)
qed

lemma bar_rows_graph:
  assumes "i < length data" and "i + 1 < WIDTH" and "0 \<le> g - B (data ! i)" and "g < int HEIGHT"
    and "0 < B (data ! i)"
  shows "bar_rows
     (concat (map (\<lambda>(x, v). if 0 < B v then [Line (int x + 1, g - B v) (int x + 1, g) 1] else [])
                  (enumerate 0 data))) (int i + 1) = [g - B (data ! i) .. g]"
proof -
  have "bar_rows
     (concat (map (\<lambda>(x, v). if 0 < B v then [Line (int x + 1, g - B v) (int x + 1, g) 1] else [])
                  (enumerate 0 data))) (int i + 1) =
     filter (\<lambda>y. g - B (data ! i) \<le> y \<and> y \<le> g) [0 .. int HEIGHT - 1]"
    unfolding bar_rows_def lit_by_lines_graph
    using assms by (intro filter_cong) (auto simp add: in_image_def)
  also have "\<dots> = [g - B (data ! i) .. g]"
    using assms by (simp add: filter_upto_range)
  finally show ?thesis .
qed

lemma bar_rows_graph_none:
  assumes "\<not> 0 < B (data ! i)"
  shows "bar_rows
     (concat (map (\<lambda>(x, v). if 0 < B v then [Line (int x + 1, g - B v) (int x + 1, g) 1] else [])
                  (enumerate 0 data))) (int i + 1) = []"
  unfolding bar_rows_def lit_by_lines_graph
  using assms by auto

lemma graph_lines_vertical:
  "\<forall>op \<in> set (concat (map (\<lambda>(x, v).
        if 0 < B v then [Line (int x + 1, g - B v) (int x + 1, g) 1] else []) xs)).
     \<exists>c a b. op = Line (c, a) (c, b) 1"
  by (auto split: if_splits)

text \<open>
  Claim C6, as amended. For every non-empty series (so for every series of length
  \<open>WIDTH\<close>), every region \<open>(y_start, height)\<close> that lies on the image and every ceiling
  \<open>max_value > 0\<close>, \<^verbatim>\<open>draw_graph\<close> draws the border rectangle from \<open>(0, y_start)\<close> to
  \<open>(WIDTH - 1, y_start + height - 1)\<close> and after it vertical lines only. For each column
  \<open>x\<close> with value \<open>v\<close> let \<open>bar = clamp(trunc(v / max_value * (height - 2)), 0, height - 2)\<close>,
  where \<open>trunc\<close> truncates toward zero. For each \<open>x\<close> whose column \<open>x + 1\<close> is on the image:
  if \<open>bar > 0\<close>, the lines light in column \<open>x + 1\<close> the \<open>bar\<close> rows directly above the
  region's bottom border row, from the bottom interior row \<open>y_start + height - 2\<close> upward,
  and no other row, the single row \<open>y_start + height - 2 - bar\<close> apart, about which the
  statement says nothing; if \<open>bar = 0\<close>, they light nothing in that column.
\<close>

theorem draw_graph_bars:
  assumes "0 < max_value" and "data \<noteq> []" and "0 \<le> y_start"
    and "y_start + height \<le> int HEIGHT"
  shows "\<exists>lines.
      draw_graph draw data y_start height max_value =
        Inr (draw @ Rectangle (0, y_start) (int WIDTH - 1, y_start + height - 1) 1 0 # lines)
    \<and> (\<forall>op \<in> set lines. \<exists>c a b. op = Line (c, a) (c, b) 1)
    \<and> (\<forall>x. x < length data \<and> x + 1 < WIDTH \<longrightarrow>
          (if 0 < trunc_bar (data ! x) max_value height
           then filter (\<lambda>y. y \<noteq> y_start + height - 2 - trunc_bar (data ! x) max_value height)
                  (bar_rows lines (int x + 1)) =
                [y_start + height - 1 - trunc_bar (data ! x) max_value height
                   .. y_start + height - 2]
           else bar_rows lines (int x + 1) = []))"
proof -
  define lines where "lines =
    concat (map (\<lambda>(x, v).
      if 0 < trunc_bar v max_value height
      then [Line (int x + 1, y_start + height - 2 - trunc_bar v max_value height)
                 (int x + 1, y_start + height - 2) 1]
      else []) (enumerate 0 data))"
  have res: "draw_graph draw data y_start height max_value =
        Inr (draw @ Rectangle (0, y_start) (int WIDTH - 1, y_start + height - 1) 1 0 # lines)"
    unfolding lines_def using assms(1,2) by (rule draw_graph_trunc)
  have vert: "\<forall>op \<in> set lines. \<exists>c a b. op = Line (c, a) (c, b) 1"
    unfolding lines_def by (rule graph_lines_vertical)
  have rows: "if 0 < trunc_bar (data ! x) max_value height
           then filter (\<lambda>y. y \<noteq> y_start + height - 2 - trunc_bar (data ! x) max_value height)
                  (bar_rows lines (int x + 1)) =
                [y_start + height - 1 - trunc_bar (data ! x) max_value height
                   .. y_start + height - 2]
           else bar_rows lines (int x + 1) = []"
    if x: "x < length data \<and> x + 1 < WIDTH" for x
  proof (cases "0 < trunc_bar (data ! x) max_value height")
    case True
    have le: "trunc_bar (data ! x) max_value height \<le> height - 2"
      using True by (rule trunc_bar_le)
    have "bar_rows lines (int x + 1) =
            [y_start + height - 2 - trunc_bar (data ! x) max_value height .. y_start + height - 2]"
      unfolding lines_def
      using x le assms(3,4) True
      by (intro bar_rows_graph [where B = "\<lambda>v. trunc_bar v max_value height"]) auto
    then have "filter (\<lambda>y. y \<noteq> y_start + height - 2 - trunc_bar (data ! x) max_value height)
                  (bar_rows lines (int x + 1)) =
               [y_start + height - 2 - trunc_bar (data ! x) max_value height + 1
                  .. y_start + height - 2]"
      by (simp only: filter_upto_drop_first)
    moreover have "y_start + height - 2 - trunc_bar (data ! x) max_value height + 1 =
                   y_start + height - 1 - trunc_bar (data ! x) max_value height"
      by simp
    ultimately show ?thesis
      using True by simp
  next
    case False
    have "bar_rows lines (int x + 1) = []"
      unfolding lines_def
      using False by (intro bar_rows_graph_none [where B = "\<lambda>v. trunc_bar v max_value height"])
    then show ?thesis
      using False by simp
  qed
  show ?thesis
    using res vert rows by blast
qed

text \<open>
  The theorem at a series of length 128 that starts with 5 and 50, in the region
  \<open>(12, 20)\<close> with ceiling 100: column 1 has no bar, column 2 has the rows 22 to 30.
\<close>

theorem draw_graph_bars_witness:
  "(0::int) < 100 \<and> 5 # 50 # replicate 126 (0::real) \<noteq> [] \<and> (0::int) \<le> 12
   \<and> 12 + 20 \<le> int HEIGHT
   \<and> (\<exists>lines. draw_graph [] (5 # 50 # replicate 126 0) 12 20 100 =
                  Inr (Rectangle (0, 12) (127, 31) 1 0 # lines)
          \<and> bar_rows lines 1 = []
          \<and> filter (\<lambda>y. y \<noteq> 21) (bar_rows lines 2) = [22 .. 30])"
proof -
  obtain lines where res: "draw_graph [] (5 # 50 # replicate 126 0) 12 20 100 =
        Inr ([] @ Rectangle (0, 12) (int WIDTH - 1, 12 + 20 - 1) 1 0 # lines)"
    and rows: "\<forall>x. x < length (5 # 50 # replicate 126 (0::real)) \<and> x + 1 < WIDTH \<longrightarrow>
          (if 0 < trunc_bar ((5 # 50 # replicate 126 0) ! x) 100 20
           then filter (\<lambda>y. y \<noteq> 12 + 20 - 2 - trunc_bar ((5 # 50 # replicate 126 0) ! x) 100 20)
                  (bar_rows lines (int x + 1)) =
                [12 + 20 - 1 - trunc_bar ((5 # 50 # replicate 126 0) ! x) 100 20 .. 12 + 20 - 2]
           else bar_rows lines (int x + 1) = [])"
    using draw_graph_bars [of 100 "5 # 50 # replicate 126 0" 12 20 "[]"]
    by (auto simp add: HEIGHT_def)
  have "bar_rows lines 1 = []"
    using rows [rule_format, of 0] by (simp add: WIDTH_def trunc_bar_examples)
  moreover have "filter (\<lambda>y. y \<noteq> 21) (bar_rows lines 2) = [22 .. 30]"
    using rows [rule_format, of 1] by (simp add: WIDTH_def trunc_bar_examples)
  ultimately show ?thesis
    using res by (simp add: WIDTH_def HEIGHT_def)
qed

text \<open>
  The claim as stated fails, on series of length 128, in each respect that the amended
  claim changes. Rounding: for the value 5, ceiling 100 and height 20 the
  specification's formula gives a positive bar and \<^verbatim>\<open>draw_graph\<close> draws the border only.
  Run length: for the value 50 the bar is 9 and the line lights the 10 rows 21 to 30.
  Last column: the line for the newest value is in column 128, off the image, and lights
  nothing. Ceiling: with \<open>max_value = 0\<close> the call raises, and with \<open>max_value = -100\<close>
  the value \<open>-50\<close>, whose bar by the formula is 9, draws nothing. Region: in the region
  \<open>(60, 20)\<close> the line for the value 50 covers the rows 69 to 78, none of them on the image.
\<close>

theorem draw_graph_bars_counterexample:
  "0 < spec_bar 5 100 20
   \<and> draw_graph [] (5 # replicate 127 0) 12 20 100 = Inr [Rectangle (0, 12) (127, 31) 1 0]
   \<and> spec_bar 50 100 20 = 9
   \<and> draw_graph [] (50 # replicate 127 0) 12 20 100 =
        Inr [Rectangle (0, 12) (127, 31) 1 0, Line (1, 21) (1, 30) 1]
   \<and> bar_rows [Line (1, 21) (1, 30) 1] 1 = [21 .. 30]
   \<and> length (bar_rows [Line (1, 21) (1, 30) 1] 1) = 10
   \<and> draw_graph [] (replicate 127 0 @ [50]) 12 20 100 =
        Inr [Rectangle (0, 12) (127, 31) 1 0, Line (128, 21) (128, 30) 1]
   \<and> bar_rows [Line (128, 21) (128, 30) 1] 128 = []
   \<and> draw_graph [] (50 # replicate 127 0) 12 20 0 = Inl ZeroDivisionError
   \<and> spec_bar (- 50) (- 100) 20 = 9
   \<and> draw_graph [] (- 50 # replicate 127 0) 12 20 (- 100) =
        Inr [Rectangle (0, 12) (127, 31) 1 0]
   \<and> draw_graph [] (50 # replicate 127 0) 60 20 100 =
        Inr [Rectangle (0, 60) (127, 79) 1 0, Line (1, 69) (1, 78) 1]
   \<and> bar_rows [Line (1, 69) (1, 78) 1] 1 = []"
proof -
  have zeros: "draw_bars d (enumerate (Suc 0) (replicate 127 0)) y h m = Inr d" for d y h m
    using enumerate_replicate_nonpositive by (rule draw_bars_nonpositive)
  have "0 < spec_bar 5 100 20" and "spec_bar 50 100 20 = 9"
    by (simp_all add: spec_bar_def clamp_def round_def)
  moreover have "draw_graph [] (5 # replicate 127 0) 12 20 100 =
      Inr [Rectangle (0, 12) (127, 31) 1 0]"
    by (simp add: draw_graph_def WIDTH_def py_truediv_def py_int_def zeros)
  moreover have "draw_graph [] (50 # replicate 127 0) 12 20 100 =
      Inr [Rectangle (0, 12) (127, 31) 1 0, Line (1, 21) (1, 30) 1]"
    by (simp add: draw_graph_def WIDTH_def py_truediv_def py_int_def zeros)
  moreover have "bar_rows [Line (1, 21) (1, 30) 1] 1 = [21 .. 30]"
    by (simp add: bar_rows_single WIDTH_def HEIGHT_def)
  moreover have "length (bar_rows [Line (1, 21) (1, 30) 1] 1) = 10"
    by (simp add: bar_rows_single WIDTH_def HEIGHT_def)
  moreover have "draw_graph [] (replicate 127 0 @ [50]) 12 20 100 =
      Inr [Rectangle (0, 12) (127, 31) 1 0, Line (128, 21) (128, 30) 1]"
    by (simp add: draw_graph_def WIDTH_def draw_bars_zeros_then py_truediv_def py_int_def)
  moreover have "bar_rows [Line (128, 21) (128, 30) 1] 128 = []"
    by (simp add: bar_rows_single WIDTH_def)
  moreover have "draw_graph [] (50 # replicate 127 0) 12 20 0 = Inl ZeroDivisionError"
    by (simp add: draw_graph_def py_truediv_def)
  moreover have "spec_bar (- 50) (- 100) 20 = 9"
    by (simp add: spec_bar_def clamp_def round_def)
  moreover have "draw_graph [] (- 50 # replicate 127 0) 12 20 (- 100) =
      Inr [Rectangle (0, 12) (127, 31) 1 0]"
    by (simp add: draw_graph_def WIDTH_def zeros)
  moreover have "draw_graph [] (50 # replicate 127 0) 60 20 100 =
      Inr [Rectangle (0, 60) (127, 79) 1 0, Line (1, 69) (1, 78) 1]"
    by (simp add: draw_graph_def WIDTH_def py_truediv_def py_int_def zeros)
  moreover have "bar_rows [Line (1, 69) (1, 78) 1] 1 = []"
    by (simp add: bar_rows_single WIDTH_def HEIGHT_def)
  ultimately show ?thesis
    by blast
qed








section \<open>Page 2\<close>

text \<open>
  \<^verbatim>\<open>draw_page_2\<close> always returns: it pushes the CPU reading and the scaled network rate
  into the two histories, stores the estimator's snapshot, and draws the header first.
  The value pushed into the network series is \<open>min (rate / 1000 * 100) 100\<close>, where
  \<open>rate\<close> is what \<^verbatim>\<open>get_network_usage\<close> returns.
\<close>

lemma draw_page_2_result:
  "\<exists>ops. draw_page_2 draw m st =
     Inr (draw @
            (case get_cpu_temp m of
               None \<Rightarrow> Text (2, 0) (CpuText (get_cpu_usage m))
             | Some t \<Rightarrow>
                 if t \<noteq> 0 then Text (2, 0) (CpuTempText (get_cpu_usage m) t)
                 else Text (2, 0) (CpuText (get_cpu_usage m))) # ops,
          st\<lparr>cpu_history := deque_append WIDTH (cpu_history st) (get_cpu_usage m),
             last_net_io :=
               snd (get_network_usage (net_io_counters m) (time_time m) (last_net_io st)),
             net_history :=
               deque_append WIDTH (net_history st)
                 (min (fst (get_network_usage (net_io_counters m) (time_time m) (last_net_io st))
                         / 1000 * 100) 100)\<rparr>)"
proof -
  obtain net_usage last' where
    g: "get_network_usage (net_io_counters m) (time_time m) (last_net_io st) = (net_usage, last')"
    by (cases "get_network_usage (net_io_counters m) (time_time m) (last_net_io st)")
  define header where "header =
    (case get_cpu_temp m of
       None \<Rightarrow> Text (2, 0) (CpuText (get_cpu_usage m))
     | Some t \<Rightarrow>
         if t \<noteq> 0 then Text (2, 0) (CpuTempText (get_cpu_usage m) t)
         else Text (2, 0) (CpuText (get_cpu_usage m)))"
  define st3 where "st3 =
    st\<lparr>cpu_history := deque_append WIDTH (cpu_history st) (get_cpu_usage m),
       last_net_io := last',
       net_history := deque_append WIDTH (net_history st) (min (net_usage / 1000 * 100) 100)\<rparr>"
  have tot: "\<exists>new. draw_graph d data y h 100 = Inr (d @ new)" for d data y h
    by (rule draw_graph_total) simp
  obtain new1 where
    g1: "draw_graph (draw @ [header]) (cpu_history st3) 12 20 100 = Inr ((draw @ [header]) @ new1)"
    using tot by blast
  obtain new2 where
    g2: "draw_graph (((draw @ [header]) @ new1) @ [Text (2, 34) (NetText net_usage)])
           (net_history st3) 46 18 100 =
         Inr ((((draw @ [header]) @ new1) @ [Text (2, 34) (NetText net_usage)]) @ new2)"
    using tot by blast
  have d1: "(case get_cpu_temp m of
               None \<Rightarrow> draw @ [Text (2, 0) (CpuText (get_cpu_usage m))]
             | Some t \<Rightarrow>
                 if t \<noteq> 0 then draw @ [Text (2, 0) (CpuTempText (get_cpu_usage m) t)]
                 else draw @ [Text (2, 0) (CpuText (get_cpu_usage m))]) = draw @ [header]"
    by (simp add: header_def split: option.split)
  have "draw_page_2 draw m st =
          Inr ((((draw @ [header]) @ new1) @ [Text (2, 34) (NetText net_usage)]) @ new2, st3)"
    using g g1 g2 by (simp add: draw_page_2_def Let_def d1 st3_def)
  then show ?thesis
    by (simp add: g header_def st3_def)
qed

lemma draw_page_2_total:
  "\<exists>img st'. draw_page_2 draw m st = Inr (img, st')
     \<and> current_page st' = current_page st \<and> lcd st' = lcd st
     \<and> cpu_history st' = deque_append WIDTH (cpu_history st) (get_cpu_usage m)
     \<and> net_history st' =
           deque_append WIDTH (net_history st)
             (min (fst (get_network_usage (net_io_counters m) (time_time m) (last_net_io st))
                     / 1000 * 100) 100)"
  using draw_page_2_result [of draw m st] by auto

lemma update_display_page_2:
  assumes "current_page st = 2"
  shows "\<exists>img. update_display m st =
     Inr (st\<lparr>cpu_history := deque_append WIDTH (cpu_history st) (get_cpu_usage m),
             last_net_io :=
               snd (get_network_usage (net_io_counters m) (time_time m) (last_net_io st)),
             net_history :=
               deque_append WIDTH (net_history st)
                 (min (fst (get_network_usage (net_io_counters m) (time_time m) (last_net_io st))
                         / 1000 * 100) 100),
             lcd := lcd st @ [img]\<rparr>)"
  using draw_page_2_result [of "[]" m st] assms
  by (auto simp add: update_display_def)

text \<open>
  Claim C8 fails on the code. The program is started, the next-page button is pressed
  twice, so that page 2 is rendered with the counters \<open>(1024000, 1024000)\<close> at time 0,
  and at the next tick, at time 2, the counters read \<open>(0, 0)\<close>. The rate is \<open>-1000\<close>, and
  the value pushed into the network series is \<open>-100\<close>: the scaled rate is clamped from
  above only.
\<close>

theorem negative_rate_pushed:
  "map_sum id (last \<circ> net_history)
     (run [(sample_metrics\<lparr>net_io_counters := Some \<lparr>bytes_sent = 1024000, bytes_recv = 1024000\<rparr>,
                           time_time := 0\<rparr>, Touch 5 ''press''),
           (sample_metrics\<lparr>net_io_counters := Some \<lparr>bytes_sent = 1024000, bytes_recv = 1024000\<rparr>,
                           time_time := 0\<rparr>, Touch 5 ''press''),
           (sample_metrics\<lparr>net_io_counters := Some \<lparr>bytes_sent = 0, bytes_recv = 0\<rparr>,
                           time_time := 2\<rparr>, Tick)]
        initial_state) = Inr (- 100)"
proof -
  define ma where "ma = sample_metrics\<lparr>net_io_counters :=
      Some \<lparr>bytes_sent = 1024000, bytes_recv = 1024000\<rparr>, time_time := 0\<rparr>"
  define mb where "mb = sample_metrics\<lparr>net_io_counters :=
      Some \<lparr>bytes_sent = 0, bytes_recv = 0\<rparr>, time_time := 2\<rparr>"
  define s1 where "s1 = initial_state\<lparr>current_page := 1, lcd := [draw_page_1 [] ma]\<rparr>"
  have 1: "step (ma, Touch 5 ''press'') initial_state = Inr s1"
    by (simp add: step_def next_page_def update_display_def initial_state_def total_pages_def
        s1_def)
  obtain img where u2: "update_display ma (s1\<lparr>current_page := 2\<rparr>) =
      Inr (s1\<lparr>current_page := 2,
              cpu_history := deque_append WIDTH (cpu_history s1) (get_cpu_usage ma),
              last_net_io := Some \<lparr>bytes_sent = 1024000, bytes_recv = 1024000, time = 0\<rparr>,
              net_history := deque_append WIDTH (net_history s1) 0,
              lcd := lcd s1 @ [img]\<rparr>)"
    using update_display_page_2 [of "s1\<lparr>current_page := 2\<rparr>" ma]
    by (auto simp add: s1_def initial_state_def ma_def get_network_usage_reading)
  define s2 where "s2 = s1\<lparr>current_page := 2,
              cpu_history := deque_append WIDTH (cpu_history s1) (get_cpu_usage ma),
              last_net_io := Some \<lparr>bytes_sent = 1024000, bytes_recv = 1024000, time = 0\<rparr>,
              net_history := deque_append WIDTH (net_history s1) 0,
              lcd := lcd s1 @ [img]\<rparr>"
  have 2: "step (ma, Touch 5 ''press'') s1 = Inr s2"
    using u2 by (simp add: step_def next_page_def total_pages_def s1_def s2_def)
  have rate: "get_network_usage (net_io_counters mb) (time_time mb) (last_net_io s2) =
      (- 1000, Some \<lparr>bytes_sent = 0, bytes_recv = 0, time = 2\<rparr>)"
    by (simp add: mb_def s2_def get_network_usage_reading)
  have page: "current_page s2 = 2"
    by (simp add: s2_def)
  have "\<exists>img'. update_display mb s2 =
      Inr (s2\<lparr>cpu_history := deque_append WIDTH (cpu_history s2) (get_cpu_usage mb),
              last_net_io := Some \<lparr>bytes_sent = 0, bytes_recv = 0, time = 2\<rparr>,
              net_history := deque_append WIDTH (net_history s2) (- 100),
              lcd := lcd s2 @ [img']\<rparr>)"
    using update_display_page_2 [OF page, of mb] by (simp add: rate)
  then obtain img' where u3: "update_display mb s2 =
      Inr (s2\<lparr>cpu_history := deque_append WIDTH (cpu_history s2) (get_cpu_usage mb),
              last_net_io := Some \<lparr>bytes_sent = 0, bytes_recv = 0, time = 2\<rparr>,
              net_history := deque_append WIDTH (net_history s2) (- 100),
              lcd := lcd s2 @ [img']\<rparr>)"
    by blast
  have 3: "step (mb, Tick) s2 =
      Inr (s2\<lparr>cpu_history := deque_append WIDTH (cpu_history s2) (get_cpu_usage mb),
              last_net_io := Some \<lparr>bytes_sent = 0, bytes_recv = 0, time = 2\<rparr>,
              net_history := deque_append WIDTH (net_history s2) (- 100),
              lcd := lcd s2 @ [img']\<rparr>)"
    using u3 by (simp add: step_def)
  have "map_sum id (last \<circ> net_history)
          (run [(ma, Touch 5 ''press''), (ma, Touch 5 ''press''), (mb, Tick)] initial_state) =
        Inr (- 100)"
    by (simp add: 1 2 3 last_deque_append WIDTH_def)
  then show ?thesis
    unfolding ma_def mb_def .
qed

text \<open>
  Claim C9 fails on the code. When the sensor reading is available and is exactly 0,
  the header drawn is the one without the temperature: \<^verbatim>\<open>if cpu_temp:\<close> is false for
  \<^verbatim>\<open>0.0\<close> as it is for \<^verbatim>\<open>None\<close>.
\<close>

theorem zero_temperature_omitted:
  "\<exists>ops st'. draw_page_2 draw (m\<lparr>get_cpu_temp := Some 0\<rparr>) st =
     Inr (draw @ Text (2, 0) (CpuText (get_cpu_usage m)) # ops, st')"
  using draw_page_2_result [of draw "m\<lparr>get_cpu_temp := Some 0\<rparr>" st]
  by auto

section \<open>The render pass and the page model\<close>

text \<open>
  A render pass always returns, leaves the current page as it is and shows one more
  frame. A press moves the page by one modulo \<open>total_pages\<close> and renders. Every run of
  the program from the initial state keeps the page within range and both histories
  at length \<open>WIDTH\<close>.
\<close>

lemma update_display_total:
  "\<exists>st'. update_display m st = Inr st'
     \<and> current_page st' = current_page st
     \<and> length (lcd st') = Suc (length (lcd st))
     \<and> length (cpu_history st') = (if current_page st = 2 then
           length (deque_append WIDTH (cpu_history st) (get_cpu_usage m)) else length (cpu_history st))
     \<and> length (net_history st') = (if current_page st = 2 then
           length (deque_append WIDTH (net_history st)
             (min (fst (get_network_usage (net_io_counters m) (time_time m) (last_net_io st))
                     / 1000 * 100) 100)) else length (net_history st))"
proof (cases "current_page st = 2")
  case True
  obtain img st2 where "draw_page_2 [] m st = Inr (img, st2)"
    and "current_page st2 = current_page st" and "lcd st2 = lcd st"
    and "cpu_history st2 = deque_append WIDTH (cpu_history st) (get_cpu_usage m)"
    and "net_history st2 =
           deque_append WIDTH (net_history st)
             (min (fst (get_network_usage (net_io_counters m) (time_time m) (last_net_io st))
                     / 1000 * 100) 100)"
    using draw_page_2_total [of "[]" m st] by blast
  then show ?thesis
    using True by (simp add: update_display_def)
next
  case False
  then show ?thesis
    by (simp add: update_display_def)
qed

lemma update_display_invariant:
  assumes "length (cpu_history st) = WIDTH" and "length (net_history st) = WIDTH"
  shows "\<exists>st'. update_display m st = Inr st'
     \<and> current_page st' = current_page st
     \<and> length (lcd st') = Suc (length (lcd st))
     \<and> length (cpu_history st') = WIDTH \<and> length (net_history st') = WIDTH"
  using update_display_total [of m st] assms
  by (auto simp add: length_deque_append)

lemma next_page_press:
  "\<exists>st'. next_page ch ''press'' m st = Inr st'
     \<and> current_page st' = (current_page st + 1) mod total_pages
     \<and> length (lcd st') = Suc (length (lcd st))"
  using update_display_total [of m "st\<lparr>current_page := (current_page st + 1) mod total_pages\<rparr>"]
  by (auto simp add: next_page_def)

lemma prev_page_press:
  "\<exists>st'. prev_page ch ''press'' m st = Inr st'
     \<and> current_page st' = (current_page st - 1) mod total_pages
     \<and> length (lcd st') = Suc (length (lcd st))"
  using update_display_total [of m "st\<lparr>current_page := (current_page st - 1) mod total_pages\<rparr>"]
  by (auto simp add: prev_page_def)

lemma step_invariant:
  assumes "0 \<le> current_page st" and "current_page st < total_pages"
    and "length (cpu_history st) = WIDTH" and "length (net_history st) = WIDTH"
  shows "\<exists>st'. step mt st = Inr st'
     \<and> 0 \<le> current_page st' \<and> current_page st' < total_pages
     \<and> length (cpu_history st') = WIDTH \<and> length (net_history st') = WIDTH"
proof -
  obtain m tr where mt: "mt = (m, tr)" by (cases mt)
  have upd: "\<exists>st'. update_display m (st\<lparr>current_page := p\<rparr>) = Inr st'
     \<and> current_page st' = p
     \<and> length (cpu_history st') = WIDTH \<and> length (net_history st') = WIDTH" for p
    using update_display_invariant [of "st\<lparr>current_page := p\<rparr>" m] assms by auto
  have range: "0 \<le> p mod total_pages \<and> p mod total_pages < total_pages" for p
    by (simp add: total_pages_def)
  show ?thesis
  proof (cases tr)
    case Tick
    then show ?thesis
      using update_display_invariant [of st m] assms by (auto simp add: step_def mt)
  next
    case (Touch ch event)
    show ?thesis
    proof (cases "event = ''press'' \<and> (ch = 3 \<or> ch = 5)")
      case False
      then show ?thesis
        using assms by (auto simp add: step_def mt Touch next_page_def prev_page_def)
    next
      case True
      then show ?thesis
        using upd [of "(current_page st + 1) mod total_pages"]
          upd [of "(current_page st - 1) mod total_pages"]
          range [of "current_page st + 1"] range [of "current_page st - 1"]
        by (auto simp add: step_def mt Touch next_page_def prev_page_def)
    qed
  qed
qed

lemma run_invariant:
  assumes "0 \<le> current_page st" and "current_page st < total_pages"
    and "length (cpu_history st) = WIDTH" and "length (net_history st) = WIDTH"
  shows "\<exists>st'. run mts st = Inr st'
     \<and> 0 \<le> current_page st' \<and> current_page st' < total_pages
     \<and> length (cpu_history st') = WIDTH \<and> length (net_history st') = WIDTH"
  using assms
proof (induction mts arbitrary: st)
  case Nil
  then show ?case by simp
next
  case (Cons mt mts)
  obtain st1 where s: "step mt st = Inr st1"
    and "0 \<le> current_page st1" and "current_page st1 < total_pages"
    and "length (cpu_history st1) = WIDTH" and "length (net_history st1) = WIDTH"
    using step_invariant [OF Cons.prems] by blast
  then show ?case
    using Cons.IH [of st1] by (simp add: s)
qed

lemma initial_state_valid:
  "0 \<le> current_page initial_state" "current_page initial_state < total_pages"
  "length (cpu_history initial_state) = WIDTH" "length (net_history initial_state) = WIDTH"
  by (simp_all add: initial_state_def total_pages_def history_init_def)

text \<open>
  Claim C4. After any sequence of pushes, also the empty one, a rolling series that
  starts as the \<open>WIDTH\<close> zeros of \<^verbatim>\<open>deque([0] * WIDTH, maxlen=WIDTH)\<close> has length \<open>WIDTH\<close>
  (128), and once at least \<open>WIDTH\<close> values were pushed it holds the last \<open>WIDTH\<close> pushed
  values, oldest first. Both series of the program have length \<open>WIDTH\<close> after every run
  from the initial state.
\<close>

theorem rolling_series_window:
  "length (foldl (deque_append WIDTH) history_init vs) = WIDTH
   \<and> (WIDTH \<le> length vs \<longrightarrow>
        foldl (deque_append WIDTH) history_init vs = drop (length vs - WIDTH) vs)
   \<and> (\<exists>st'. run mts initial_state = Inr st'
          \<and> length (cpu_history st') = WIDTH \<and> length (net_history st') = WIDTH)"
proof -
  have len: "length history_init = WIDTH"
    by (simp add: history_init_def)
  have eq: "foldl (deque_append WIDTH) history_init vs = drop (length vs) (history_init @ vs)"
    using len by (rule foldl_deque_append)
  have "\<exists>st'. run mts initial_state = Inr st'
          \<and> length (cpu_history st') = WIDTH \<and> length (net_history st') = WIDTH"
    using run_invariant [OF initial_state_valid, of mts] by blast
  then show ?thesis
    using len by (simp add: eq)
qed

text \<open>
  The theorem at 129 pushes: 128 times the value 1, then 2.
\<close>

theorem rolling_series_window_witness:
  "WIDTH \<le> length (replicate 128 (1::real) @ [2])
   \<and> length (foldl (deque_append WIDTH) history_init (replicate 128 1 @ [2])) = WIDTH
   \<and> foldl (deque_append WIDTH) history_init (replicate 128 1 @ [2]) = replicate 127 1 @ [2]"
  using rolling_series_window [of "replicate 128 1 @ [2]" "[]"]
  by (simp add: WIDTH_def)

text \<open>
  Claim C5. With \<open>total_pages = 3\<close>: a press of the previous-page button on page 0
  leads to page \<open>total_pages - 1\<close>; a press of the next-page button on page
  \<open>total_pages - 1\<close> leads to page 0; three presses of the next-page button from a valid
  page lead back to it; and after any sequence of touch events and ticks from the
  initial state the current page is within \<open>0 .. total_pages - 1\<close>.
\<close>

theorem page_model_wraps:
  "(\<exists>st'. prev_page ch ''press'' m (st\<lparr>current_page := 0\<rparr>) = Inr st'
          \<and> current_page st' = total_pages - 1)
   \<and> (\<exists>st'. next_page ch ''press'' m (st\<lparr>current_page := total_pages - 1\<rparr>) = Inr st'
          \<and> current_page st' = 0)
   \<and> (0 \<le> current_page st \<and> current_page st < total_pages \<longrightarrow>
        (\<exists>s1 s2 s3. next_page ch ''press'' m1 st = Inr s1
           \<and> next_page ch ''press'' m2 s1 = Inr s2
           \<and> next_page ch ''press'' m3 s2 = Inr s3
           \<and> current_page s3 = current_page st))
   \<and> (\<exists>st'. run mts initial_state = Inr st'
          \<and> 0 \<le> current_page st' \<and> current_page st' < total_pages)"
proof (intro conjI impI)
  show "\<exists>st'. prev_page ch ''press'' m (st\<lparr>current_page := 0\<rparr>) = Inr st'
          \<and> current_page st' = total_pages - 1"
    using prev_page_press [of ch m "st\<lparr>current_page := 0\<rparr>"]
    by (auto simp add: total_pages_def)
next
  show "\<exists>st'. next_page ch ''press'' m (st\<lparr>current_page := total_pages - 1\<rparr>) = Inr st'
          \<and> current_page st' = 0"
    using next_page_press [of ch m "st\<lparr>current_page := total_pages - 1\<rparr>"]
    by (auto simp add: total_pages_def)
next
  assume valid: "0 \<le> current_page st \<and> current_page st < total_pages"
  obtain s1 where 1: "next_page ch ''press'' m1 st = Inr s1"
    and p1: "current_page s1 = (current_page st + 1) mod total_pages"
    using next_page_press [of ch m1 st] by blast
  obtain s2 where 2: "next_page ch ''press'' m2 s1 = Inr s2"
    and p2: "current_page s2 = (current_page s1 + 1) mod total_pages"
    using next_page_press [of ch m2 s1] by blast
  obtain s3 where 3: "next_page ch ''press'' m3 s2 = Inr s3"
    and p3: "current_page s3 = (current_page s2 + 1) mod total_pages"
    using next_page_press [of ch m3 s2] by blast
  have "current_page s3 = current_page st"
    using valid unfolding p3 p2 p1 total_pages_def by presburger
  then show "\<exists>s1 s2 s3. next_page ch ''press'' m1 st = Inr s1
           \<and> next_page ch ''press'' m2 s1 = Inr s2
           \<and> next_page ch ''press'' m3 s2 = Inr s3
           \<and> current_page s3 = current_page st"
    using 1 2 3 by blast
next
  show "\<exists>st'. run mts initial_state = Inr st'
          \<and> 0 \<le> current_page st' \<and> current_page st' < total_pages"
    using run_invariant [OF initial_state_valid, of mts] by blast
qed

text \<open>
  The theorem at the initial state (page 0) and the sample readings.
\<close>

theorem page_model_wraps_witness:
  "0 \<le> current_page initial_state \<and> current_page initial_state < total_pages
   \<and> (\<exists>s1 s2 s3. next_page 5 ''press'' sample_metrics initial_state = Inr s1
           \<and> next_page 5 ''press'' sample_metrics s1 = Inr s2
           \<and> next_page 5 ''press'' sample_metrics s2 = Inr s3
           \<and> current_page s3 = 0)"
  using page_model_wraps [of 5 sample_metrics initial_state sample_metrics sample_metrics
      sample_metrics "[]"]
  by (simp add: initial_state_def total_pages_def)

text \<open>
  Claim C10. For an event other than \<^verbatim>\<open>'press'\<close> both handlers return the state they
  were given: the current page is unchanged, and so is the list of frames shown (no
  render pass took place).
\<close>

theorem non_press_events_ignored:
  assumes "event \<noteq> ''press''"
  shows "next_page ch event m st = Inr st \<and> prev_page ch event m st = Inr st"
  using assms by (simp add: next_page_def prev_page_def)

text \<open>
  The theorem at the event \<^verbatim>\<open>'release'\<close> on both buttons.
\<close>

theorem non_press_events_ignored_witness:
  "''release'' \<noteq> ''press''
   \<and> next_page 5 ''release'' sample_metrics initial_state = Inr initial_state
   \<and> prev_page 3 ''release'' sample_metrics initial_state = Inr initial_state"
  using non_press_events_ignored [of "''release''" 5 sample_metrics initial_state]
    non_press_events_ignored [of "''release''" 3 sample_metrics initial_state]
  by simp

end
